theory Spec2Isabelle
  imports Main "HOL-Library.AList"
begin

section \<open>JavaScript values\<close>

text \<open>
  The values a core's sub-state, a message payload and the result of \<open>initialize\<close> or
  \<open>react\<close> range over. \<open>Obj\<close> is a plain JavaScript object, \<open>IMap\<close> an
  \<open>Immutable.Map\<close>; both list their entries in insertion order. The numbers are the
  integer-valued ones: \<open>Num n\<close> for an integer \<open>n\<close> that a double represents, the two
  infinities and \<open>NaN\<close> (fractions, and the sign of zero, are left out). Sequences
  (arrays, \<open>Immutable.List\<close>) are left out: the store treats them exactly like mappings.
\<close>

datatype jsval =
    Undefined
  | Null
  | Bool bool
  | Num int
  | PosInfinity
  | NegInfinity
  | NaN
  | Str string
  | Obj "(string \<times> jsval) list"
  | IMap "(string \<times> jsval) list"

text \<open>What \<open>x || y\<close> and \<open>if (x)\<close> test: the falsy values are \<open>undefined\<close>, \<open>null\<close>,
  \<open>false\<close>, \<open>0\<close>, \<open>NaN\<close> and the empty string.\<close>

fun truthy :: "jsval \<Rightarrow> bool" where
  "truthy Undefined = False"
| "truthy Null = False"
| "truthy (Bool b) = b"
| "truthy (Num n) = (n \<noteq> 0)"
| "truthy PosInfinity = True"
| "truthy NegInfinity = True"
| "truthy NaN = False"
| "truthy (Str s) = (s \<noteq> [])"
| "truthy (Obj kvs) = True"
| "truthy (IMap kvs) = True"

text \<open>\<open>a || b\<close>\<close>

definition js_or :: "jsval \<Rightarrow> jsval \<Rightarrow> jsval" where
  "js_or a b = (if truthy a then a else b)"

text \<open>The errors the store can raise or let through. \<open>RegistrationConflict\<close> is the
  \<open>new Error("Only one reactor can be registered per id")\<close> of \<open>attachCore\<close>;
  \<open>ReferenceError\<close> is what evaluating an undeclared identifier raises; \<open>TypeError\<close> is
  what calling a method that a value does not have raises; \<open>CoreError\<close> is whatever a
  core's own \<open>initialize\<close> or \<open>react\<close> throws.\<close>

datatype error =
    RegistrationConflict
  | ReferenceError
  | TypeError
  | CoreError string

subsection \<open>The Immutable library, as far as the store uses it\<close>

text \<open>\<open>Immutable.fromJS\<close>: plain objects become Maps, deeply; every other value, a Map
  included, is returned as it is.\<close>

fun fromJS :: "jsval \<Rightarrow> jsval" where
  "fromJS (Obj kvs) = IMap (map (\<lambda>(k, v). (k, fromJS v)) kvs)"
| "fromJS v = v"

text \<open>\<open>x.asImmutable()\<close>: a Map answers with itself; no other value has the method, so
  the call raises a TypeError (for \<open>undefined\<close> and \<open>null\<close> already at the property
  access).\<close>

fun asImmutable :: "jsval \<Rightarrow> error + jsval" where
  "asImmutable (IMap kvs) = Inr (IMap kvs)"
| "asImmutable v = Inl TypeError"

text \<open>\<open>map.get(k)\<close> and \<open>map.set(k, v)\<close> on the entries of an \<open>Immutable.Map\<close>: a
  missing key reads as \<open>undefined\<close>; \<open>set\<close> replaces the entry in place or appends it.\<close>

definition map_get :: "(string \<times> jsval) list \<Rightarrow> string \<Rightarrow> jsval" where
  "map_get kvs k = (case map_of kvs k of None \<Rightarrow> Undefined | Some v \<Rightarrow> v)"

definition map_set :: "(string \<times> jsval) list \<Rightarrow> string \<Rightarrow> jsval \<Rightarrow> (string \<times> jsval) list" where
  "map_set kvs k v = AList.update k v kvs"

section \<open>Cores, messages and the Reactor\<close>

text \<open>
  A value handed to \<open>attachCore\<close>. \<open>instanceof_ReactorCore\<close> is the outcome of
  \<open>core instanceof ReactorCore\<close>; \<open>initialize\<close> is the outcome of the call
  \<open>core.initialize()\<close> (it takes no argument) and \<open>react\<close> the outcome of
  \<open>core.react(state, type, payload)\<close>: a value, or the error the core throws.
\<close>

record core =
  instanceof_ReactorCore :: bool
  initialize :: "error + jsval"
  react :: "jsval \<Rightarrow> string \<Rightarrow> jsval \<Rightarrow> error + jsval"

record message =
  mtype :: string
  payload :: jsval

text \<open>
  The fields of a \<open>Reactor\<close>. \<open>state\<close> holds the entries of the top-level
  \<open>Immutable.Map\<close>, \<open>reactorCores\<close> the own properties of the registry object in the
  order they were added, \<open>outputStream\<close> every value written to the output stream,
  oldest first.
\<close>

record reactor =
  state :: "(string \<times> jsval) list"
  reactorCores :: "(string \<times> core) list"
  outputStream :: "(string \<times> jsval) list list"

text \<open>The constructor: an empty state map, an empty registry, nothing written.\<close>

definition Reactor :: reactor where
  "Reactor = \<lparr>state = [], reactorCores = [], outputStream = []\<rparr>"

subsection \<open>Collaborators that the store calls\<close>

text \<open>Modelled from the spec: \<open>coerceArray\<close> of the utils module, which is not part of
  the sources. "Coerce messages into an ordered sequence (a lone message becomes a
  one-element sequence)". This is the sequence of messages that the result holds; which
  array object holds it is the matter of the section on arrays in memory.\<close>

datatype messages = Lone message | Batch "message list"

fun coerceArray :: "messages \<Rightarrow> message list" where
  "coerceArray (Lone m) = [m]"
| "coerceArray (Batch ms) = ms"

text \<open>Modelled from the spec: \<open>each\<close> of the utils module, which is not part of the
  sources. It calls \<open>f(value, key)\<close> for every entry of the object, and the "iteration
  order = registry insertion order". The callback works on the state \<open>s\<close> around it; an
  error it raises ends the iteration.\<close>

fun each :: "('k \<times> 'v) list \<Rightarrow> ('v \<Rightarrow> 'k \<Rightarrow> 's \<Rightarrow> error + 's) \<Rightarrow> 's \<Rightarrow> error + 's" where
  "each [] f s = Inr s"
| "each ((k, v) # kvs) f s = (case f v k s of Inl e \<Rightarrow> Inl e | Inr s' \<Rightarrow> each kvs f s')"

text \<open>Modelled from the spec: \<open>mutate\<close> of the immutable-helpers module, which is not
  part of the sources: "a scoped mutate transaction that applies multiple path updates
  and returns a new immutable snapshot without mutating the original". The body works on
  a builder that starts as the given map; what it leaves is the new map. An error raised
  in the body leaves \<open>mutate\<close> without a result.\<close>

definition mutate :: "'s \<Rightarrow> ('s \<Rightarrow> 'r) \<Rightarrow> 'r" where
  "mutate st body = body st"

text \<open>Modelled from the spec: \<open>keyPath\<close> of the utils module, \<open>get\<close> and \<open>toJS\<close> of
  the immutable-helpers module, which are not part of the sources. A path "is either a
  single key or an ordered list of keys, resolved by successive lookups; absent
  intermediate keys yield an absent result rather than an error"; \<open>toJS\<close> is the "deep
  conversion to a plain nested value".\<close>

datatype keyPath = Key string | Keys "string list"

fun coerceKeyPath :: "keyPath \<Rightarrow> string list" where
  "coerceKeyPath (Key k) = [k]"
| "coerceKeyPath (Keys ks) = ks"

fun immutable_get :: "jsval \<Rightarrow> string list \<Rightarrow> jsval" where
  "immutable_get v [] = v"
| "immutable_get (IMap kvs) (k # ks) =
     (case map_of kvs k of None \<Rightarrow> Undefined | Some v \<Rightarrow> immutable_get v ks)"
| "immutable_get v (k # ks) = Undefined"

fun toJS :: "jsval \<Rightarrow> jsval" where
  "toJS (IMap kvs) = Obj (map (\<lambda>(k, v). (k, toJS v)) kvs)"
| "toJS v = v"

subsection \<open>Reading the state\<close>

definition getImmutable :: "reactor \<Rightarrow> keyPath \<Rightarrow> jsval" where
  "getImmutable this keyPath = immutable_get (IMap (state this)) (coerceKeyPath keyPath)"

definition get :: "reactor \<Rightarrow> keyPath \<Rightarrow> jsval" where
  "get this keyPath = toJS (getImmutable this keyPath)"

subsection \<open>attachCore and unattachCore\<close>

text \<open>
  The registry is a plain object \<open>{}\<close>, so \<open>this.reactorCores[id]\<close> also finds what the
  object inherits from \<open>Object.prototype\<close>. Every registered value is a core object and
  every inherited property is a function or an object: whatever the lookup finds is
  truthy.
\<close>

definition Object_prototype :: "string list" where
  "Object_prototype =
     [''constructor'', ''toString'', ''toLocaleString'', ''valueOf'', ''hasOwnProperty'',
      ''isPrototypeOf'', ''propertyIsEnumerable'', ''__proto__'', ''__defineGetter__'',
      ''__defineSetter__'', ''__lookupGetter__'', ''__lookupSetter__'']"

definition lookup_truthy :: "(string \<times> core) list \<Rightarrow> string \<Rightarrow> bool" where
  "lookup_truthy cores cid = (cid \<in> set (map fst cores) \<or> cid \<in> set Object_prototype)"

text \<open>
  What a call leaves behind: the error it threw, if any, and the Reactor afterwards.
  \<open>attachCore\<close> also reports how often it called \<open>core.initialize()\<close>, and \<open>cycle\<close> what
  is left of the array of messages it worked on.
\<close>

record outcome =
  thrown :: "error option"
  after :: reactor

record attach_outcome = outcome +
  initialize_calls :: nat

record cycle_outcome = outcome +
  messages_after :: "message list"

text \<open>
  \<open>attachCore(id, core)\<close>. The identifier \<open>Core\<close> in \<open>core = new Core()\<close> is bound
  nowhere in the module (the parameter is \<open>core\<close>), so evaluating it raises a
  ReferenceError. Both \<open>throw\<close>s and a throwing \<open>initialize\<close> come before the two
  assignments, so they leave the Reactor as it was.
\<close>

definition attachCore :: "reactor \<Rightarrow> string \<Rightarrow> core \<Rightarrow> attach_outcome" where
  "attachCore this cid core =
     (if lookup_truthy (reactorCores this) cid then
        \<lparr>thrown = Some RegistrationConflict, after = this, initialize_calls = 0\<rparr>
      else if \<not> instanceof_ReactorCore core then
        \<lparr>thrown = Some ReferenceError, after = this, initialize_calls = 0\<rparr>
      else
        (case initialize core of
           Inl e \<Rightarrow> \<lparr>thrown = Some e, after = this, initialize_calls = 1\<rparr>
         | Inr v \<Rightarrow>
             (let initialState = js_or v (Obj []) in
              \<lparr>thrown = None,
               after = this\<lparr>state := map_set (state this) cid (fromJS initialState),
                             reactorCores := AList.update cid core (reactorCores this)\<rparr>,
               initialize_calls = 1\<rparr>)))"

text \<open>\<open>unattachCore(id)\<close>: \<open>delete this.reactorCores[id]\<close>.\<close>

definition unattachCore :: "reactor \<Rightarrow> string \<Rightarrow> reactor" where
  "unattachCore this cid = this\<lparr>reactorCores := AList.delete cid (reactorCores this)\<rparr>"

subsection \<open>cycle\<close>

text \<open>The callback of \<open>each\<close>: one core reacts to one message. The calls to the logging
  module observe only and are left out.\<close>

definition core_react :: "message \<Rightarrow> core \<Rightarrow> string \<Rightarrow> (string \<times> jsval) list \<Rightarrow> error + (string \<times> jsval) list" where
  "core_react message core cid st =
     (case asImmutable (map_get st cid) of
        Inl e \<Rightarrow> Inl e
      | Inr reactorState \<Rightarrow>
          (case react core reactorState (mtype message) (payload message) of
             Inl e \<Rightarrow> Inl e
           | Inr newState \<Rightarrow> Inr (map_set st cid newState)))"

text \<open>The loop \<open>while (messages.length > 0) { var message = messages.shift(); ... }\<close>:
  it returns what is left of the array together with the builder state, or the error
  that ended it.\<close>

fun while_messages ::
  "(string \<times> core) list \<Rightarrow> message list \<Rightarrow> (string \<times> jsval) list \<Rightarrow> message list \<times> (error + (string \<times> jsval) list)" where
  "while_messages cores [] st = ([], Inr st)"
| "while_messages cores (message # messages) st =
     (case each cores (core_react message) st of
        Inl e \<Rightarrow> (messages, Inl e)
      | Inr st' \<Rightarrow> while_messages cores messages st')"

text \<open>\<open>cycle(messages)\<close>: an error leaves before \<open>this.state\<close> is assigned and before the
  output stream is written.\<close>

definition cycle :: "reactor \<Rightarrow> messages \<Rightarrow> cycle_outcome" where
  "cycle this messages =
     (case mutate (state this) (while_messages (reactorCores this) (coerceArray messages)) of
        (rest, Inl e) \<Rightarrow> \<lparr>thrown = Some e, after = this, messages_after = rest\<rparr>
      | (rest, Inr st) \<Rightarrow>
          \<lparr>thrown = None,
           after = this\<lparr>state := st, outputStream := outputStream this @ [st]\<rparr>,
           messages_after = rest\<rparr>)"

section \<open>The fold of the spec and the last known sub-states\<close>

text \<open>
  The fold that the spec describes, in its words: for each message in submission order,
  for every registered core in registry insertion order, apply the core's \<open>react\<close> to
  that core's own sub-state and write the returned value back as the entire new
  sub-state at the core's id. It reads \<open>react\<close> as a function that returns a value.
\<close>

definition react_written_back ::
  "message \<Rightarrow> (string \<times> jsval) list \<Rightarrow> string \<times> core \<Rightarrow> (string \<times> jsval) list" where
  "react_written_back m st = (\<lambda>(cid, core).
     map_set st cid (projr (react core (map_get st cid) (mtype m) (payload m))))"

definition fold_batch ::
  "(string \<times> core) list \<Rightarrow> message list \<Rightarrow> (string \<times> jsval) list \<Rightarrow> (string \<times> jsval) list" where
  "fold_batch cores ms st = foldl (\<lambda>st m. foldl (react_written_back m) st cores) st ms"

subsection \<open>Sequences of operations and the last known sub-state\<close>

text \<open>The store that a sequence of \<open>attachCore\<close>, \<open>unattachCore\<close> and \<open>cycle\<close> calls
  leads to from a new Reactor. A call that throws counts as well: the caller goes on
  with the Reactor it leaves.\<close>

datatype operation = AttachCore string core | UnattachCore string | Cycle messages

fun perform :: "reactor \<Rightarrow> operation \<Rightarrow> reactor" where
  "perform this (AttachCore cid core) = after (attachCore this cid core)"
| "perform this (UnattachCore cid) = unattachCore this cid"
| "perform this (Cycle messages) = after (cycle this messages)"

definition run :: "operation list \<Rightarrow> reactor" where
  "run ops = foldl perform Reactor ops"

text \<open>
  The sub-state last known for an id, read off the cores and not off the state tree.
  An \<open>attachCore\<close> that returns makes it the seed of the core: the persistent form of
  what the initializer returned, or the empty mapping when that is falsy. A \<open>cycle\<close>
  that returns takes it, for every id with a registered core, through that core's
  \<open>react\<close>, message by message. \<open>unattachCore\<close> and a call that throws leave it as it
  is. \<open>track\<close> carries it along with the store, which decides whether a call returns.
\<close>

definition seed :: "core \<Rightarrow> jsval" where
  "seed core = (let v = projr (initialize core) in if truthy v then fromJS v else IMap [])"

definition reacted :: "core \<Rightarrow> message list \<Rightarrow> jsval \<Rightarrow> jsval" where
  "reacted core ms v = foldl (\<lambda>s m. projr (react core s (mtype m) (payload m))) v ms"

fun track ::
  "reactor \<times> (string \<Rightarrow> jsval option) \<Rightarrow> operation \<Rightarrow> reactor \<times> (string \<Rightarrow> jsval option)" where
  "track (this, known) (AttachCore cid core) =
     (after (attachCore this cid core),
      if thrown (attachCore this cid core) = None then known(cid \<mapsto> seed core) else known)"
| "track (this, known) (UnattachCore cid) = (unattachCore this cid, known)"
| "track (this, known) (Cycle messages) =
     (after (cycle this messages),
      if thrown (cycle this messages) = None
      then (\<lambda>cid. case map_of (reactorCores this) cid of
                    None \<Rightarrow> known cid
                  | Some core \<Rightarrow> map_option (reacted core (coerceArray messages)) (known cid))
      else known)"

definition last_known :: "operation list \<Rightarrow> string \<Rightarrow> jsval option" where
  "last_known ops = snd (foldl track (Reactor, Map.empty) ops)"

text \<open>What the proof of the invariant carries: the ids of the registry are distinct, the
  state tree holds the last known sub-states, and every registered id has one.\<close>

definition tracked :: "reactor \<times> (string \<Rightarrow> jsval option) \<Rightarrow> bool" where
  "tracked p = (distinct (map fst (reactorCores (fst p)))
     \<and> map_of (state (fst p)) = snd p
     \<and> fst ` set (reactorCores (fst p)) \<subseteq> dom (snd p))"

section \<open>Arrays in memory\<close>

text \<open>
  An array of messages is an object: \<open>messages.shift()\<close> changes the array that the
  variable refers to, and a caller that holds the same array sees the change. The arrays
  are the cells of a memory, a reference is the index of a cell, and the argument of
  \<open>cycle\<close> is a lone message or a reference to the caller's array.

  \<open>coerceArray\<close> is not part of the sources, and the spec does not say whether it hands
  an array back or returns another array with the same messages. So it is a parameter
  here: given the argument and the memory it returns a reference and the memory (in
  which it may have allocated an array). \<open>cycle_in_memory\<close> is the call
  \<open>cycle(messages)\<close> in a memory: the loop works on the array that \<open>coerceArray\<close>
  returned, and what \<open>cycle\<close> leaves of the messages is what that array holds
  afterwards.
\<close>

type_synonym ref = nat

type_synonym arrays = "message list list"

datatype argument = Message message | Array ref

definition cycle_in_memory ::
  "(argument \<Rightarrow> arrays \<Rightarrow> ref \<times> arrays) \<Rightarrow> reactor \<Rightarrow> argument \<Rightarrow> arrays \<Rightarrow> cycle_outcome \<times> arrays" where
  "cycle_in_memory coerce this arg h =
     (case coerce arg h of
        (r, h1) \<Rightarrow>
          (cycle this (Batch (h1 ! r)), h1[r := messages_after (cycle this (Batch (h1 ! r)))]))"


fun coerceArray_copy :: "argument \<Rightarrow> arrays \<Rightarrow> ref \<times> arrays" where
  "coerceArray_copy (Message m) h = (length h, h @ [[m]])"
| "coerceArray_copy (Array a) h = (length h, h @ [h ! a])"

section \<open>Example cores and messages\<close>

subsection \<open>Numbers and the operator \<open>+\<close> of JavaScript\<close>

text \<open>
  The counter of the spec's example computes \<open>state + n\<close>. A number of JavaScript is a
  double: the sum of two numbers is the exact sum rounded to the nearest double, a tie
  going to the even significand, and to an infinity from \<open>2^1024\<close> on. \<open>round_nat\<close> is
  that rounding on the natural numbers (a double has 53 significant bits) and \<open>number\<close>
  the number nearest to an integer.
\<close>

fun bits :: "nat \<Rightarrow> nat" where
  "bits n = (if n = 0 then 0 else Suc (bits (n div 2)))"

declare bits.simps [simp del]

definition round_nat :: "nat \<Rightarrow> nat" where
  "round_nat a =
     (if a < 2 ^ 53 then a
      else (let k = bits a - 53; q = a div 2 ^ k; r = a mod 2 ^ k
            in (if 2 ^ (k - 1) < r \<or> (r = 2 ^ (k - 1) \<and> odd q) then q + 1 else q) * 2 ^ k))"

definition number :: "int \<Rightarrow> jsval" where
  "number i =
     (let a = round_nat (nat \<bar>i\<bar>)
      in if 2 ^ 1024 \<le> a then (if i < 0 then NegInfinity else PosInfinity)
         else Num (if i < 0 then - int a else int a))"

text \<open>
  How a number prints (\<open>Number::toString\<close>): of the decimals that read back as the
  number, one with the fewest significant digits, and of those the closest (the even one
  on a tie); written out in full below \<open>10^21\<close> and with an exponent from there on.
\<close>

fun digits :: "nat \<Rightarrow> string" where
  "digits n = (if n < 10 then [''0123456789'' ! n]
               else digits (n div 10) @ [''0123456789'' ! (n mod 10)])"

declare digits.simps [simp del]

definition shortest :: "nat \<Rightarrow> nat" where
  "shortest a =
     (let n = length (digits a)
      in case List.find
             (\<lambda>k. round_nat ((a div 10 ^ (n - k)) * 10 ^ (n - k)) = a
                \<or> round_nat ((a div 10 ^ (n - k)) * 10 ^ (n - k) + 10 ^ (n - k)) = a)
             [1..<Suc n] of
           None \<Rightarrow> a
         | Some k \<Rightarrow>
             (let sc = 10 ^ (n - k); lo = (a div sc) * sc; hi = lo + sc
              in if round_nat lo \<noteq> a then hi
                 else if round_nat hi \<noteq> a then lo
                 else if a - lo < hi - a then lo
                 else if hi - a < a - lo then hi
                 else if even (a div sc) then lo else hi))"

definition exponential :: "nat \<Rightarrow> string" where
  "exponential c =
     (let ds = digits c; sig = rev (dropWhile (\<lambda>d. d = CHR ''0'') (rev ds))
      in take 1 sig @ (if length sig \<le> 1 then [] else CHR ''.'' # drop 1 sig)
           @ ''e+'' @ digits (length ds - 1))"

definition natural_to_string :: "nat \<Rightarrow> string" where
  "natural_to_string a = (let c = shortest a in if c < 10 ^ 21 then digits c else exponential c)"

definition number_to_string :: "int \<Rightarrow> string" where
  "number_to_string i =
     (if i < 0 then CHR ''-'' # natural_to_string (nat (- i)) else natural_to_string (nat i))"

text \<open>
  When the primitive of either operand of \<open>+\<close> is a string (strings, and objects through
  \<open>toString\<close>) the operator concatenates the operands' strings; otherwise it adds their
  numbers. A plain object prints as \<open>[object Object]\<close>, an \<open>Immutable.Map\<close> in the
  format of Immutable 3 (\<open>Map {}\<close> when empty), with keys and string values quoted as
  \<open>JSON.stringify\<close> quotes them; the escapes of control characters are left out.
\<close>

definition quote :: "string \<Rightarrow> string" where
  "quote s =
     CHR 0x22 # concat (map (\<lambda>c. if c = CHR 0x22 \<or> c = CHR 0x5C then [CHR 0x5C, c] else [c]) s)
       @ [CHR 0x22]"

fun join :: "string list \<Rightarrow> string" where
  "join [] = []"
| "join [x] = x"
| "join (x # y # ys) = x @ '', '' @ join (y # ys)"

fun is_Str :: "jsval \<Rightarrow> bool" where
  "is_Str (Str s) = True"
| "is_Str v = False"

fun js_to_string :: "jsval \<Rightarrow> string" where
  "js_to_string Undefined = ''undefined''"
| "js_to_string Null = ''null''"
| "js_to_string (Bool b) = (if b then ''true'' else ''false'')"
| "js_to_string (Num n) = number_to_string n"
| "js_to_string PosInfinity = ''Infinity''"
| "js_to_string NegInfinity = ''-Infinity''"
| "js_to_string NaN = ''NaN''"
| "js_to_string (Str s) = s"
| "js_to_string (Obj kvs) = ''[object Object]''"
| "js_to_string (IMap kvs) =
     (if kvs = [] then ''Map {}''
      else ''Map { '' @ join (map (\<lambda>(k, v). quote k @ '': '' @
             (if is_Str v then quote (js_to_string v) else js_to_string v)) kvs) @ '' }'')"

text \<open>The number of a value whose primitive is not a string; \<open>None\<close> for the others.\<close>

fun to_number :: "jsval \<Rightarrow> jsval option" where
  "to_number Undefined = Some NaN"
| "to_number Null = Some (Num 0)"
| "to_number (Bool b) = Some (Num (if b then 1 else 0))"
| "to_number (Num n) = Some (Num n)"
| "to_number PosInfinity = Some PosInfinity"
| "to_number NegInfinity = Some NegInfinity"
| "to_number NaN = Some NaN"
| "to_number v = None"

text \<open>The sum of two numbers.\<close>

fun add_numbers :: "jsval \<Rightarrow> jsval \<Rightarrow> jsval" where
  "add_numbers (Num x) (Num y) = number (x + y)"
| "add_numbers (Num x) PosInfinity = PosInfinity"
| "add_numbers (Num x) NegInfinity = NegInfinity"
| "add_numbers PosInfinity (Num y) = PosInfinity"
| "add_numbers PosInfinity PosInfinity = PosInfinity"
| "add_numbers NegInfinity (Num y) = NegInfinity"
| "add_numbers NegInfinity NegInfinity = NegInfinity"
| "add_numbers a b = NaN"

definition js_plus :: "jsval \<Rightarrow> jsval \<Rightarrow> jsval" where
  "js_plus a b =
     (case (to_number a, to_number b) of
        (Some x, Some y) \<Rightarrow> add_numbers x y
      | _ \<Rightarrow> Str (js_to_string a @ js_to_string b))"

subsection \<open>Cores\<close>

text \<open>A core whose \<open>initialize\<close> returns nothing and whose \<open>react\<close> returns the state it
  is given.\<close>

definition empty_core :: core where
  "empty_core =
     \<lparr>instanceof_ReactorCore = True, initialize = Inr Undefined, react = (\<lambda>s t p. Inr s)\<rparr>"

text \<open>A core whose \<open>initialize\<close> returns \<open>0\<close>.\<close>

definition zero_core :: core where
  "zero_core =
     \<lparr>instanceof_ReactorCore = True, initialize = Inr (Num 0), react = (\<lambda>s t p. Inr s)\<rparr>"

text \<open>A plain object with the two methods of a core, which is not an instance of
  \<open>ReactorCore\<close>.\<close>

definition plain_core :: core where
  "plain_core =
     \<lparr>instanceof_ReactorCore = False, initialize = Inr (Obj []), react = (\<lambda>s t p. Inr s)\<rparr>"

text \<open>A core whose \<open>react\<close> throws.\<close>

definition failing_core :: core where
  "failing_core =
     \<lparr>instanceof_ReactorCore = True, initialize = Inr (Obj []),
      react = (\<lambda>s t p. Inl (CoreError ''boom''))\<rparr>"

text \<open>A core that keeps the payload of the latest message as its sub-state: its
  \<open>react\<close> is pure and total and returns a plain value.\<close>

definition latest_core :: core where
  "latest_core =
     \<lparr>instanceof_ReactorCore = True, initialize = Inr (Obj []), react = (\<lambda>s t p. Inr p)\<rparr>"

text \<open>The counter of the spec's example: \<open>initialize() -> 0\<close> and
  \<open>react(state, 'INCREMENT', n) -> state + n\<close>; any other message leaves the state.\<close>

definition counter_core :: core where
  "counter_core =
     \<lparr>instanceof_ReactorCore = True,
      initialize = Inr (Num 0),
      react = (\<lambda>s t n. if t = ''INCREMENT'' then Inr (js_plus s n) else Inr s)\<rparr>"

text \<open>The same counter kept in a mapping: \<open>initialize() -> {count: 0}\<close> and
  \<open>react(state, 'INCREMENT', n) -> state.set('count', state.get('count') + n)\<close>.\<close>

definition count_core :: core where
  "count_core =
     \<lparr>instanceof_ReactorCore = True,
      initialize = Inr (Obj [(''count'', Num 0)]),
      react = (\<lambda>s t n.
        if t = ''INCREMENT'' then
          (case s of
             IMap kvs \<Rightarrow> Inr (IMap (map_set kvs ''count'' (js_plus (map_get kvs ''count'') n)))
           | _ \<Rightarrow> Inl TypeError)
        else Inr s)\<rparr>"

subsection \<open>Messages\<close>

definition increment :: "int \<Rightarrow> message" where
  "increment n = \<lparr>mtype = ''INCREMENT'', payload = Num n\<rparr>"

definition ping :: message where
  "ping = \<lparr>mtype = ''PING'', payload = Num 1\<rparr>"

definition pong :: message where
  "pong = \<lparr>mtype = ''PONG'', payload = Num 2\<rparr>"

subsection \<open>A sequence of operations\<close>

definition attach_cycle_unattach_cycle :: "operation list" where
  "attach_cycle_unattach_cycle =
     [AttachCore ''a'' empty_core, AttachCore ''b'' count_core,
      Cycle (Batch [increment 1, increment 2]), UnattachCore ''a'',
      Cycle (Lone (increment 4))]"

section \<open>Auxiliary facts\<close>

lemmas run_defs = cycle_def mutate_def core_react_def map_get_def map_set_def attachCore_def
  lookup_truthy_def Object_prototype_def Reactor_def js_or_def get_def getImmutable_def

lemma update_fresh: "k \<notin> set (map fst al) \<Longrightarrow> AList.update k v al = al @ [(k, v)]"
  by (induction al) auto

lemma map_get_map_set: "map_get (map_set st k v) k' = (if k' = k then v else map_get st k')"
  by (simp add: map_get_def map_set_def update_conv')

lemma keys_map_set: "fst ` set (map_set st k v) = insert k (fst ` set st)"
  by (simp add: map_set_def dom_update)

lemma asImmutable_Inr: "asImmutable v = Inr s \<Longrightarrow> s = v"
  by (cases v) auto

subsection \<open>The loop\<close>

lemma each_append:
  "each (xs @ ys) f s = (case each xs f s of Inl e \<Rightarrow> Inl e | Inr s' \<Rightarrow> each ys f s')"
  by (induction xs arbitrary: s) (auto split: sum.splits)

lemma while_messages_no_cores: "while_messages [] ms st = ([], Inr st)"
  by (induction ms) auto

lemma while_messages_drained: "while_messages cores ms st = (rest, Inr st') \<Longrightarrow> rest = []"
  by (induction ms arbitrary: st) (auto split: sum.splits)

lemma while_messages_append:
  "while_messages cores ms1 st = ([], Inr st1) \<Longrightarrow>
   while_messages cores (ms1 @ ms) st = while_messages cores ms st1"
  by (induction ms1 arbitrary: st) (auto split: sum.splits)


subsection \<open>The two ways out of \<open>cycle\<close>\<close>

lemma cycle_returns:
  assumes "thrown (cycle this messages) = None"
  obtains st where
    "while_messages (reactorCores this) (coerceArray messages) (state this) = ([], Inr st)"
    "cycle this messages =
       \<lparr>thrown = None, after = this\<lparr>state := st, outputStream := outputStream this @ [st]\<rparr>,
        messages_after = []\<rparr>"
proof -
  obtain rest res where
    w: "while_messages (reactorCores this) (coerceArray messages) (state this) = (rest, res)"
    by (cases "while_messages (reactorCores this) (coerceArray messages) (state this)")
  with assms obtain st where r: "res = Inr st"
    by (cases res) (auto simp: cycle_def mutate_def)
  from while_messages_drained w r have "rest = []" by blast
  with w r that show thesis by (simp add: cycle_def mutate_def)
qed

lemma cycle_throws:
  assumes "thrown (cycle this messages) = Some e"
  obtains rest where
    "while_messages (reactorCores this) (coerceArray messages) (state this) = (rest, Inl e)"
    "cycle this messages = \<lparr>thrown = Some e, after = this, messages_after = rest\<rparr>"
proof -
  obtain rest res where
    w: "while_messages (reactorCores this) (coerceArray messages) (state this) = (rest, res)"
    by (cases "while_messages (reactorCores this) (coerceArray messages) (state this)")
  with assms have r: "res = Inl e"
    by (cases res) (auto simp: cycle_def mutate_def)
  with w that show thesis by (simp add: cycle_def mutate_def)
qed

subsection \<open>The loop against the fold\<close>

lemma core_react_Inr:
  "core_react m core cid st = Inr st' \<Longrightarrow> st' = react_written_back m st (cid, core)"
  by (auto simp: core_react_def react_written_back_def split: sum.splits dest: asImmutable_Inr)

lemma each_core_react_fold:
  "each cores (core_react m) st = Inr st' \<Longrightarrow> st' = foldl (react_written_back m) st cores"
proof (induction cores arbitrary: st)
  case Nil
  then show ?case by simp
next
  case (Cons c cores)
  obtain cid core where c: "c = (cid, core)" by (cases c)
  from Cons.prems c obtain st1 where
    s1: "core_react m core cid st = Inr st1" and s2: "each cores (core_react m) st1 = Inr st'"
    by (auto split: sum.splits)
  from core_react_Inr [OF s1] Cons.IH [OF s2] c show ?case by simp
qed

lemma while_messages_fold:
  "while_messages cores ms st = (rest, Inr st') \<Longrightarrow> st' = fold_batch cores ms st"
proof (induction ms arbitrary: st)
  case Nil
  then show ?case by (simp add: fold_batch_def)
next
  case (Cons m ms)
  from Cons.prems obtain st1 where
    s1: "each cores (core_react m) st = Inr st1"
    and s2: "while_messages cores ms st1 = (rest, Inr st')"
    by (auto split: sum.splits)
  from Cons.IH [OF s2] each_core_react_fold [OF s1] show ?case
    by (simp add: fold_batch_def)
qed

subsection \<open>The last known sub-states\<close>

lemma fst_track: "fst (track (this, known) op) = perform this op"
  by (cases op) simp_all

lemma fst_foldl_track: "fst (foldl track (this, known) ops) = foldl perform this ops"
proof (induction ops arbitrary: this known)
  case Nil
  then show ?case by simp
next
  case (Cons op ops)
  obtain this' known' where t: "track (this, known) op = (this', known')"
    by (cases "track (this, known) op")
  with fst_track [of this known op] have "this' = perform this op" by simp
  with t Cons.IH [of this' known'] show ?case by simp
qed

lemma asImmutable_entry:
  "asImmutable (map_get st cid) = Inr s \<Longrightarrow> map_of st cid = Some s"
  by (cases "map_of st cid") (auto simp: map_get_def dest: asImmutable_Inr)

lemma map_of_map_set: "map_of (map_set st k v) = (map_of st)(k \<mapsto> v)"
  by (simp add: map_set_def update_conv')

lemma each_core_react_entry:
  assumes "distinct (map fst cores)" and "each cores (core_react m) st = Inr st'"
  shows "map_of st' cid =
           (case map_of cores cid of
              None \<Rightarrow> map_of st cid
            | Some core \<Rightarrow>
                map_option (\<lambda>v. projr (react core v (mtype m) (payload m))) (map_of st cid))
         \<and> (map_of cores cid \<noteq> None \<longrightarrow> map_of st cid \<noteq> None)"
  using assms
proof (induction cores arbitrary: st)
  case Nil
  then show ?case by simp
next
  case (Cons c cores)
  obtain k core where c: "c = (k, core)" by (cases c)
  from Cons.prems c obtain st1 where
    s1: "core_react m core k st = Inr st1" and s2: "each cores (core_react m) st1 = Inr st'"
    by (auto split: sum.splits)
  from s1 obtain s ns where
    own: "asImmutable (map_get st k) = Inr s"
    and r: "react core s (mtype m) (payload m) = Inr ns"
    and st1: "st1 = map_set st k ns"
    by (auto simp: core_react_def split: sum.splits)
  from asImmutable_entry [OF own] have e: "map_of st k = Some s" .
  from Cons.prems c have d: "distinct (map fst cores)" and fresh: "k \<notin> fst ` set cores"
    by auto
  note IH = Cons.IH [OF d s2]
  show ?case
  proof (cases "cid = k")
    case True
    from fresh have "map_of cores k = None"
      by (simp add: map_of_eq_None_iff)
    with IH True st1 e r c show ?thesis
      by (simp add: map_of_map_set)
  next
    case False
    with st1 have "map_of st1 cid = map_of st cid"
      by (simp add: map_of_map_set)
    with IH False c show ?thesis
      by (simp split: option.splits)
  qed
qed

lemma while_messages_entry:
  assumes "distinct (map fst cores)" and "while_messages cores ms st = (rest, Inr st')"
  shows "map_of st' cid =
           (case map_of cores cid of
              None \<Rightarrow> map_of st cid
            | Some core \<Rightarrow> map_option (reacted core ms) (map_of st cid))"
  using assms
proof (induction ms arbitrary: st)
  case Nil
  then show ?case
    by (auto simp: reacted_def option.map_ident split: option.splits)
next
  case (Cons m ms)
  from Cons.prems obtain st1 where
    s1: "each cores (core_react m) st = Inr st1"
    and s2: "while_messages cores ms st1 = (rest, Inr st')"
    by (auto split: sum.splits)
  from each_core_react_entry [OF Cons.prems(1) s1, of cid] Cons.IH [OF Cons.prems(1) s2]
  show ?case
    by (auto simp: reacted_def option.map_comp comp_def split: option.splits)
qed

lemma attachCore_cases:
  "(thrown (attachCore this cid core) \<noteq> None \<and> after (attachCore this cid core) = this)
   \<or> (thrown (attachCore this cid core) = None
       \<and> cid \<notin> set (map fst (reactorCores this))
       \<and> after (attachCore this cid core) =
           this\<lparr>state := map_set (state this) cid (seed core),
                reactorCores := AList.update cid core (reactorCores this)\<rparr>)"
  by (auto simp: attachCore_def seed_def js_or_def lookup_truthy_def Let_def split: sum.splits)

lemma tracked_step:
  assumes "tracked (this, known)"
  shows "tracked (track (this, known) op)"
proof (cases op)
  case (AttachCore cid core)
  from attachCore_cases [of this cid core] show ?thesis
  proof
    assume "thrown (attachCore this cid core) \<noteq> None \<and> after (attachCore this cid core) = this"
    then obtain e where "thrown (attachCore this cid core) = Some e"
      and "after (attachCore this cid core) = this"
      by auto
    with assms AttachCore show ?thesis by (simp add: tracked_def)
  next
    assume a: "thrown (attachCore this cid core) = None
       \<and> cid \<notin> set (map fst (reactorCores this))
       \<and> after (attachCore this cid core) =
           this\<lparr>state := map_set (state this) cid (seed core),
                reactorCores := AList.update cid core (reactorCores this)\<rparr>"
    with assms AttachCore show ?thesis
      by (auto simp: tracked_def map_of_map_set distinct_update dom_update)
  qed
next
  case (UnattachCore cid)
  from assms have "distinct (map fst (AList.delete cid (reactorCores this)))"
    by (simp add: tracked_def distinct_delete)
  moreover have "fst ` set (AList.delete cid (reactorCores this)) \<subseteq> fst ` set (reactorCores this)"
    by (auto simp: AList.delete_eq)
  ultimately show ?thesis
    using assms UnattachCore by (auto simp: tracked_def unattachCore_def)
next
  case (Cycle messages)
  show ?thesis
  proof (cases "thrown (cycle this messages)")
    case None
    then obtain st where
      w: "while_messages (reactorCores this) (coerceArray messages) (state this) = ([], Inr st)"
      and c: "cycle this messages =
         \<lparr>thrown = None, after = this\<lparr>state := st, outputStream := outputStream this @ [st]\<rparr>,
          messages_after = []\<rparr>"
      by (rule cycle_returns)
    from assms have d: "distinct (map fst (reactorCores this))"
      and k: "map_of (state this) = known"
      and r: "fst ` set (reactorCores this) \<subseteq> dom known"
      by (simp_all add: tracked_def)
    have "map_of st = (\<lambda>cid. case map_of (reactorCores this) cid of
                    None \<Rightarrow> known cid
                  | Some core \<Rightarrow> map_option (reacted core (coerceArray messages)) (known cid))"
      using while_messages_entry [OF d w] k by auto
    moreover have "fst ` set (reactorCores this) \<subseteq> dom (\<lambda>cid. case map_of (reactorCores this) cid of
                    None \<Rightarrow> known cid
                  | Some core \<Rightarrow> map_option (reacted core (coerceArray messages)) (known cid))"
      using r by (auto split: option.splits)
    ultimately show ?thesis
      using Cycle None c d by (simp add: tracked_def)
  next
    case (Some e)
    then obtain rest where
      "cycle this messages = \<lparr>thrown = Some e, after = this, messages_after = rest\<rparr>"
      by (rule cycle_throws)
    with assms Cycle show ?thesis by (simp add: tracked_def)
  qed
qed

lemma tracked_foldl: "tracked p \<Longrightarrow> tracked (foldl track p ops)"
proof (induction ops arbitrary: p)
  case Nil
  then show ?case by simp
next
  case (Cons op ops)
  obtain this known where p: "p = (this, known)" by (cases p)
  with Cons.prems have "tracked (track p op)" by (simp add: tracked_step)
  from Cons.IH [OF this] show ?case by simp
qed

subsection \<open>What is left of the messages\<close>


text \<open>With a \<open>coerceArray\<close> that copies, the caller's array is left as it was.\<close>

lemma cycle_leaves_array_with_a_copy:
  assumes "a < length h"
  shows "snd (cycle_in_memory coerceArray_copy this (Array a) h) ! a = h ! a"
  using assms by (simp add: cycle_in_memory_def nth_append)

section \<open>The state after a cycle\<close>

text \<open>
  C1, as amended. For every store (so for every one that a sequence of \<open>attachCore\<close>,
  \<open>unattachCore\<close> and \<open>cycle\<close> calls leads to) and every message batch: whenever
  \<open>cycle(messages)\<close> returns normally, the state tree after it equals the fold that
  applies, for each message in submission order, every registered core's \<open>react\<close> in
  registry insertion order to that core's own sub-state and writes each returned value
  back as the entire new sub-state at the core's id.
\<close>

theorem cycle_state_is_fold:
  assumes "thrown (cycle this messages) = None"
  shows "state (after (cycle this messages))
           = fold_batch (reactorCores this) (coerceArray messages) (state this)"
proof -
  from assms obtain st where
    w: "while_messages (reactorCores this) (coerceArray messages) (state this) = ([], Inr st)"
    and c: "cycle this messages =
       \<lparr>thrown = None, after = this\<lparr>state := st, outputStream := outputStream this @ [st]\<rparr>,
        messages_after = []\<rparr>"
    by (rule cycle_returns)
  from while_messages_fold [OF w] c show ?thesis by simp
qed

theorem cycle_state_is_fold_witness:
  "thrown (cycle (after (attachCore Reactor ''counter'' count_core))
      (Batch [increment 1, ping, increment 2])) = None
   \<and> state (after (cycle (after (attachCore Reactor ''counter'' count_core))
        (Batch [increment 1, ping, increment 2])))
       = [(''counter'', IMap [(''count'', Num 3)])]
   \<and> fold_batch (reactorCores (after (attachCore Reactor ''counter'' count_core)))
        (coerceArray (Batch [increment 1, ping, increment 2]))
        (state (after (attachCore Reactor ''counter'' count_core)))
       = [(''counter'', IMap [(''count'', Num 3)])]"
proof -
  have h: "thrown (cycle (after (attachCore Reactor ''counter'' count_core))
      (Batch [increment 1, ping, increment 2])) = None"
    by (simp add: run_defs count_core_def increment_def ping_def js_plus_def number_def round_nat_def)
  have s: "state (after (cycle (after (attachCore Reactor ''counter'' count_core))
        (Batch [increment 1, ping, increment 2])))
       = [(''counter'', IMap [(''count'', Num 3)])]"
    by (simp add: run_defs count_core_def increment_def ping_def js_plus_def number_def round_nat_def)
  from cycle_state_is_fold [OF h] h s show ?thesis by simp
qed

text \<open>
  C1 as it is stated fails when a core returns a value that is not a persistent
  collection. \<open>latest_core\<close> never throws, and the fold leaves the payload \<open>1\<close> at
  \<open>latest\<close>; the store reads the \<open>1\<close> that the first message left, calls
  \<open>asImmutable\<close> on it, and the TypeError leaves the state tree as it was before the
  cycle.
\<close>

theorem cycle_state_is_fold_counterexample:
  "state (after (cycle (after (attachCore Reactor ''latest'' latest_core)) (Batch [ping, ping])))
     = [(''latest'', IMap [])]
   \<and> fold_batch (reactorCores (after (attachCore Reactor ''latest'' latest_core)))
        (coerceArray (Batch [ping, ping])) (state (after (attachCore Reactor ''latest'' latest_core)))
     = [(''latest'', Num 1)]"
  by (simp add: run_defs latest_core_def ping_def fold_batch_def react_written_back_def)

section \<open>A core that throws\<close>

text \<open>
  C2. If a core's \<open>react\<close> raises during \<open>cycle(messages)\<close>, the error reaches the
  caller of \<open>cycle\<close> as it is, and the store is left exactly as it was before the call:
  the state tree keeps its value and nothing is written to the output stream. The
  hypotheses name the first raise: the messages \<open>ms1\<close> went through without an error and
  left the builder at \<open>st1\<close>; on the message \<open>m\<close> the cores \<open>cs1\<close> registered before
  \<open>cid\<close> reacted and left \<open>st2\<close>; the core at \<open>cid\<close> is handed its sub-state \<open>s\<close> and
  raises \<open>e\<close>.
\<close>

theorem cycle_react_raises:
  assumes regs: "reactorCores this = cs1 @ (cid, core) # cs2"
    and msgs: "coerceArray messages = ms1 @ m # ms2"
    and before: "while_messages (reactorCores this) ms1 (state this) = ([], Inr st1)"
    and earlier: "each cs1 (core_react m) st1 = Inr st2"
    and own: "asImmutable (map_get st2 cid) = Inr s"
    and raises: "react core s (mtype m) (payload m) = Inl e"
  shows "cycle this messages = \<lparr>thrown = Some e, after = this, messages_after = ms2\<rparr>"
proof -
  from own raises have "core_react m core cid st2 = Inl e"
    by (simp add: core_react_def)
  with earlier have "each (reactorCores this) (core_react m) st1 = Inl e"
    by (simp add: regs each_append)
  then have "while_messages (reactorCores this) (m # ms2) st1 = (ms2, Inl e)"
    by simp
  with while_messages_append [OF before, of "m # ms2"]
  have "while_messages (reactorCores this) (coerceArray messages) (state this) = (ms2, Inl e)"
    by (simp add: msgs)
  then show ?thesis by (simp add: cycle_def mutate_def)
qed

theorem cycle_react_raises_witness:
  "cycle (after (attachCore (after (attachCore Reactor ''a'' empty_core)) ''x'' failing_core))
      (Batch [ping, pong])
     = \<lparr>thrown = Some (CoreError ''boom''),
        after = after (attachCore (after (attachCore Reactor ''a'' empty_core)) ''x'' failing_core),
        messages_after = [pong]\<rparr>
   \<and> state (after (cycle
        (after (attachCore (after (attachCore Reactor ''a'' empty_core)) ''x'' failing_core))
        (Batch [ping, pong])))
     = [(''a'', IMap []), (''x'', IMap [])]"
proof -
  let ?r = "after (attachCore (after (attachCore Reactor ''a'' empty_core)) ''x'' failing_core)"
  have a: "?r = \<lparr>state = [(''a'', IMap []), (''x'', IMap [])],
                  reactorCores = [(''a'', empty_core), (''x'', failing_core)],
                  outputStream = []\<rparr>"
    by (simp add: run_defs failing_core_def empty_core_def)
  have regs: "reactorCores ?r = [(''a'', empty_core)] @ (''x'', failing_core) # []"
    by (simp add: a)
  have msgs: "coerceArray (Batch [ping, pong]) = [] @ ping # [pong]"
    by simp
  have before: "while_messages (reactorCores ?r) [] (state ?r) = ([], Inr (state ?r))"
    by simp
  have st: "state ?r = [(''a'', IMap []), (''x'', IMap [])]"
    by (simp add: a)
  have re: "react empty_core (IMap []) (mtype ping) (payload ping) = Inr (IMap [])"
    by (simp add: empty_core_def)
  have earlier: "each [(''a'', empty_core)] (core_react ping) (state ?r) = Inr (state ?r)"
    by (simp add: st re core_react_def map_get_def map_set_def)
  have own: "asImmutable (map_get (state ?r) ''x'') = Inr (IMap [])"
    by (simp add: st map_get_def)
  have raises: "react failing_core (IMap []) (mtype ping) (payload ping) = Inl (CoreError ''boom'')"
    by (simp add: failing_core_def)
  from cycle_react_raises [OF regs msgs before earlier own raises] a
  show ?thesis by simp
qed

section \<open>Attaching under an id that is taken\<close>

text \<open>
  C3. For every id already present in the registry, \<open>attachCore(id, core)\<close> fails with
  the registration conflict error, calls nothing of the new core, and leaves the store
  as it was: the registry entry and the state tree entry for the id are the ones from
  before the call.
\<close>

theorem attachCore_registered_id:
  assumes "cid \<in> fst ` set (reactorCores this)"
  shows "attachCore this cid core =
           \<lparr>thrown = Some RegistrationConflict, after = this, initialize_calls = 0\<rparr>"
  using assms by (simp add: attachCore_def lookup_truthy_def)

theorem attachCore_registered_id_witness:
  "''x'' \<in> fst ` set (reactorCores (after (attachCore Reactor ''x'' empty_core)))
   \<and> attachCore (after (attachCore Reactor ''x'' empty_core)) ''x'' zero_core =
       \<lparr>thrown = Some RegistrationConflict, after = after (attachCore Reactor ''x'' empty_core),
        initialize_calls = 0\<rparr>
   \<and> map_of (reactorCores (after (attachCore (after (attachCore Reactor ''x'' empty_core))
        ''x'' zero_core))) ''x'' = Some empty_core"
proof -
  have h: "''x'' \<in> fst ` set (reactorCores (after (attachCore Reactor ''x'' empty_core)))"
    by (simp add: run_defs empty_core_def)
  have r: "map_of (reactorCores (after (attachCore Reactor ''x'' empty_core))) ''x''
             = Some empty_core"
    by (simp add: run_defs empty_core_def)
  from attachCore_registered_id [OF h, of zero_core] h r show ?thesis by simp
qed

section \<open>One write to the output stream\<close>

text \<open>
  C4, as amended. Every invocation of \<open>cycle(messages)\<close> that returns normally writes
  the new state tree to the output stream exactly once, whatever the number of messages
  in the batch. With an empty registry or an empty batch it always returns normally,
  the state is unchanged and is still written once. An invocation that throws writes
  nothing.
\<close>

theorem cycle_publishes_once:
  "(thrown (cycle this messages) = None \<longrightarrow>
      outputStream (after (cycle this messages))
        = outputStream this @ [state (after (cycle this messages))])
   \<and> (reactorCores this = [] \<or> coerceArray messages = [] \<longrightarrow>
      cycle this messages =
        \<lparr>thrown = None, after = this\<lparr>outputStream := outputStream this @ [state this]\<rparr>,
         messages_after = []\<rparr>)
   \<and> (thrown (cycle this messages) \<noteq> None \<longrightarrow>
      outputStream (after (cycle this messages)) = outputStream this)"
proof (intro conjI impI)
  assume "thrown (cycle this messages) = None"
  then obtain st where "cycle this messages =
       \<lparr>thrown = None, after = this\<lparr>state := st, outputStream := outputStream this @ [st]\<rparr>,
        messages_after = []\<rparr>"
    by (rule cycle_returns)
  then show "outputStream (after (cycle this messages))
        = outputStream this @ [state (after (cycle this messages))]"
    by simp
next
  assume "reactorCores this = [] \<or> coerceArray messages = []"
  then have "while_messages (reactorCores this) (coerceArray messages) (state this)
               = ([], Inr (state this))"
    by (auto simp: while_messages_no_cores)
  then show "cycle this messages =
        \<lparr>thrown = None, after = this\<lparr>outputStream := outputStream this @ [state this]\<rparr>,
         messages_after = []\<rparr>"
    by (simp add: cycle_def mutate_def)
next
  assume "thrown (cycle this messages) \<noteq> None"
  then obtain e where "thrown (cycle this messages) = Some e" by auto
  then obtain rest where
    "cycle this messages = \<lparr>thrown = Some e, after = this, messages_after = rest\<rparr>"
    by (rule cycle_throws)
  then show "outputStream (after (cycle this messages)) = outputStream this"
    by simp
qed

theorem cycle_publishes_once_witness:
  "thrown (cycle (after (attachCore Reactor ''x'' empty_core)) (Batch [ping, ping, ping])) = None
   \<and> outputStream (after (cycle (after (attachCore Reactor ''x'' empty_core))
        (Batch [ping, ping, ping]))) = [[(''x'', IMap [])]]
   \<and> reactorCores Reactor = []
   \<and> outputStream (after (cycle Reactor (Lone ping))) = [[]]
   \<and> thrown (cycle (after (attachCore Reactor ''x'' failing_core)) (Lone ping)) \<noteq> None
   \<and> outputStream (after (cycle (after (attachCore Reactor ''x'' failing_core)) (Lone ping))) = []"
proof -
  have h1: "thrown (cycle (after (attachCore Reactor ''x'' empty_core))
              (Batch [ping, ping, ping])) = None"
    by (simp add: run_defs empty_core_def ping_def)
  have h2: "reactorCores Reactor = []"
    by (simp add: Reactor_def)
  have h3: "thrown (cycle (after (attachCore Reactor ''x'' failing_core)) (Lone ping)) \<noteq> None"
    by (simp add: run_defs failing_core_def ping_def)
  have s1: "state (after (cycle (after (attachCore Reactor ''x'' empty_core))
        (Batch [ping, ping, ping]))) = [(''x'', IMap [])]"
    by (simp add: run_defs empty_core_def ping_def)
  have o1: "outputStream (after (attachCore Reactor ''x'' empty_core)) = []"
    and o3: "outputStream (after (attachCore Reactor ''x'' failing_core)) = []"
    by (simp_all add: run_defs empty_core_def failing_core_def)
  from cycle_publishes_once [of "after (attachCore Reactor ''x'' empty_core)" "Batch [ping, ping, ping]"]
    cycle_publishes_once [of Reactor "Lone ping"]
    cycle_publishes_once [of "after (attachCore Reactor ''x'' failing_core)" "Lone ping"]
    h1 h2 h3 s1 o1 o3
  show ?thesis by (simp add: Reactor_def)
qed

text \<open>
  C4 as it is stated fails for an invocation that does not return: with \<open>latest_core\<close>,
  whose \<open>react\<close> never throws, the second message of the batch ends the cycle with the
  store's own TypeError and the output stream stays empty.
\<close>

theorem cycle_publishes_once_counterexample:
  "thrown (cycle (after (attachCore Reactor ''latest'' latest_core)) (Batch [ping, pong]))
     = Some TypeError
   \<and> outputStream (after (attachCore Reactor ''latest'' latest_core)) = []
   \<and> outputStream (after (cycle (after (attachCore Reactor ''latest'' latest_core))
        (Batch [ping, pong]))) = []"
  by (simp add: run_defs latest_core_def ping_def pong_def)

section \<open>An empty batch\<close>

text \<open>
  C5. Dispatching an empty batch of messages through \<open>cycle\<close> leaves the state tree as
  it was and writes it to the output stream exactly once; no error is thrown.
\<close>

theorem cycle_empty_batch:
  "cycle this (Batch []) =
     \<lparr>thrown = None, after = this\<lparr>outputStream := outputStream this @ [state this]\<rparr>,
      messages_after = []\<rparr>"
  by (simp add: cycle_def mutate_def)

section \<open>Registered ids resolve to their last known sub-state\<close>

text \<open>
  C6. After every sequence of \<open>attachCore\<close>, \<open>unattachCore\<close> and \<open>cycle\<close> calls, the
  entry of the state tree at an id is the sub-state last known for that id, and every id
  present in the core registry has one, which is what reading the id from the store
  returns: \<open>attachCore\<close> seeds it, \<open>cycle\<close> writes back at every registered id what the
  core returned, and \<open>unattachCore\<close> removes no entry (the entry of an id that is no
  longer registered stays what it was).
\<close>

theorem registered_ids_resolve:
  "map_of (state (run ops)) cid = last_known ops cid
   \<and> (cid \<in> fst ` set (reactorCores (run ops)) \<longrightarrow>
        (\<exists>v. last_known ops cid = Some v \<and> getImmutable (run ops) (Key cid) = v))"
proof -
  have "tracked (Reactor, Map.empty)"
    by (simp add: tracked_def Reactor_def)
  from tracked_foldl [OF this, of ops]
  have "tracked (foldl track (Reactor, Map.empty) ops)" .
  moreover have "fst (foldl track (Reactor, Map.empty) ops) = run ops"
    by (simp add: fst_foldl_track run_def)
  ultimately have entry: "map_of (state (run ops)) = last_known ops"
    and registered: "fst ` set (reactorCores (run ops)) \<subseteq> dom (last_known ops)"
    by (simp_all add: tracked_def last_known_def)
  have "\<exists>v. last_known ops cid = Some v \<and> getImmutable (run ops) (Key cid) = v"
    if "cid \<in> fst ` set (reactorCores (run ops))"
  proof -
    from that registered obtain v where v: "last_known ops cid = Some v" by auto
    with entry have "map_of (state (run ops)) cid = Some v" by simp
    then have "getImmutable (run ops) (Key cid) = v"
      by (simp add: getImmutable_def)
    with v show ?thesis by simp
  qed
  with entry show ?thesis by simp
qed

theorem registered_ids_resolve_witness:
  "''b'' \<in> fst ` set (reactorCores (run attach_cycle_unattach_cycle))
   \<and> last_known attach_cycle_unattach_cycle ''b'' = Some (IMap [(''count'', Num 7)])
   \<and> map_of (state (run attach_cycle_unattach_cycle)) ''b'' = Some (IMap [(''count'', Num 7)])
   \<and> getImmutable (run attach_cycle_unattach_cycle) (Key ''b'') = IMap [(''count'', Num 7)]
   \<and> ''a'' \<notin> fst ` set (reactorCores (run attach_cycle_unattach_cycle))
   \<and> last_known attach_cycle_unattach_cycle ''a'' = Some (IMap [])
   \<and> map_of (state (run attach_cycle_unattach_cycle)) ''a'' = Some (IMap [])"
proof -
  have r: "run attach_cycle_unattach_cycle =
             \<lparr>state = [(''a'', IMap []), (''b'', IMap [(''count'', Num 7)])],
              reactorCores = [(''b'', count_core)],
              outputStream = [[(''a'', IMap []), (''b'', IMap [(''count'', Num 3)])],
                              [(''a'', IMap []), (''b'', IMap [(''count'', Num 7)])]]\<rparr>"
    by (simp add: attach_cycle_unattach_cycle_def run_def run_defs unattachCore_def
        empty_core_def count_core_def increment_def js_plus_def number_def round_nat_def)
  have b: "''b'' \<in> fst ` set (reactorCores (run attach_cycle_unattach_cycle))"
    and a: "''a'' \<notin> fst ` set (reactorCores (run attach_cycle_unattach_cycle))"
    and mb: "map_of (state (run attach_cycle_unattach_cycle)) ''b''
               = Some (IMap [(''count'', Num 7)])"
    and ma: "map_of (state (run attach_cycle_unattach_cycle)) ''a'' = Some (IMap [])"
    by (simp_all add: r)
  from registered_ids_resolve [of attach_cycle_unattach_cycle "''b''"] b mb
  have lb: "last_known attach_cycle_unattach_cycle ''b'' = Some (IMap [(''count'', Num 7)])"
    and gb: "getImmutable (run attach_cycle_unattach_cycle) (Key ''b'')
               = IMap [(''count'', Num 7)]"
    by auto
  from registered_ids_resolve [of attach_cycle_unattach_cycle "''a''"] ma
  have la: "last_known attach_cycle_unattach_cycle ''a'' = Some (IMap [])"
    by simp
  from a b ma mb la lb gb show ?thesis by blast
qed

section \<open>What attachCore stores\<close>

text \<open>
  C7, as amended. When the lookup of the id in the registry finds nothing and the core is
  an instance of \<open>ReactorCore\<close> whose \<open>initialize\<close> returns \<open>v\<close>, \<open>attachCore(id, core)\<close>
  calls the initializer exactly once, registers the core under the id after the cores
  already there, and stores at key id of the state tree the persistent form of \<open>v\<close> when
  \<open>v\<close> is truthy and the empty mapping otherwise: an absent result, and every other
  falsy result (\<open>null\<close>, \<open>false\<close>, \<open>0\<close>, \<open>NaN\<close>, the empty string), is treated as an
  empty mapping.
\<close>

theorem attachCore_stores_initial_state:
  assumes "\<not> lookup_truthy (reactorCores this) cid"
    and "instanceof_ReactorCore core"
    and "initialize core = Inr v"
  shows "attachCore this cid core =
           \<lparr>thrown = None,
            after = this\<lparr>state := map_set (state this) cid (fromJS (if truthy v then v else Obj [])),
                          reactorCores := reactorCores this @ [(cid, core)]\<rparr>,
            initialize_calls = 1\<rparr>
         \<and> map_get (state (after (attachCore this cid core))) cid
             = (if truthy v then fromJS v else IMap [])"
proof -
  from assms(1) have fresh: "cid \<notin> set (map fst (reactorCores this))"
    by (simp add: lookup_truthy_def)
  have "attachCore this cid core =
           \<lparr>thrown = None,
            after = this\<lparr>state := map_set (state this) cid (fromJS (if truthy v then v else Obj [])),
                          reactorCores := reactorCores this @ [(cid, core)]\<rparr>,
            initialize_calls = 1\<rparr>"
    using assms by (simp add: attachCore_def js_or_def update_fresh [OF fresh])
  then show ?thesis
    by (simp add: map_get_map_set)
qed

theorem attachCore_stores_initial_state_witness:
  "\<not> lookup_truthy (reactorCores Reactor) ''x''
   \<and> instanceof_ReactorCore empty_core
   \<and> initialize empty_core = Inr Undefined
   \<and> initialize_calls (attachCore Reactor ''x'' empty_core) = 1
   \<and> state (after (attachCore Reactor ''x'' empty_core)) = [(''x'', IMap [])]
   \<and> map fst (reactorCores (after (attachCore Reactor ''x'' empty_core))) = [''x'']"
proof -
  have h1: "\<not> lookup_truthy (reactorCores Reactor) ''x''"
    by (simp add: lookup_truthy_def Object_prototype_def Reactor_def)
  have h2: "instanceof_ReactorCore empty_core" and h3: "initialize empty_core = Inr Undefined"
    by (simp_all add: empty_core_def)
  from attachCore_stores_initial_state [OF h1 h2 h3] h1 h2 h3 show ?thesis
    by (simp add: Reactor_def map_set_def)
qed

text \<open>
  C7 as it is stated fails for a result that is falsy without being absent: the
  initializer of \<open>zero_core\<close> returns \<open>0\<close>, and what \<open>attachCore\<close> stores is the empty
  mapping, not the \<open>0\<close>.
\<close>

theorem attachCore_stores_initial_state_counterexample:
  "thrown (attachCore Reactor ''counter'' zero_core) = None
   \<and> initialize zero_core = Inr (Num 0)
   \<and> map_get (state (after (attachCore Reactor ''counter'' zero_core))) ''counter'' = IMap []
   \<and> map_get (state (after (attachCore Reactor ''counter'' zero_core))) ''counter''
       \<noteq> fromJS (Num 0)"
  by (simp add: run_defs zero_core_def)

section \<open>A value that is not a ReactorCore\<close>

text \<open>
  C8. Handed a value that is not an instance of \<open>ReactorCore\<close> under a free id, the store
  should construct a default core from it and complete the attach. The code instead
  evaluates the unbound identifier \<open>Core\<close>: the call throws a ReferenceError, nothing is
  initialized and nothing is registered.
\<close>

theorem attachCore_not_a_ReactorCore:
  "\<not> instanceof_ReactorCore plain_core
   \<and> attachCore Reactor ''x'' plain_core =
        \<lparr>thrown = Some ReferenceError, after = Reactor, initialize_calls = 0\<rparr>
   \<and> reactorCores (after (attachCore Reactor ''x'' plain_core)) = []"
  by (simp add: run_defs plain_core_def)

section \<open>The counter example\<close>

text \<open>
  C9, as amended. Attach a core \<open>counter\<close> whose initializer returns the mapping
  \<open>{count: 0}\<close> and whose \<open>react\<close> maps \<open>(state, 'INCREMENT', n)\<close> to the state with
  \<open>count\<close> raised by \<open>n\<close>, then dispatch the batch
  \<open>[{type:'INCREMENT', payload:1}, {type:'INCREMENT', payload:2}]\<close> in one cycle: the
  cycle returns normally, \<open>get('counter')\<close> is \<open>{count: 3}\<close>, and exactly one snapshot
  was written.
\<close>

theorem counter_in_a_mapping:
  "cycle (after (attachCore Reactor ''counter'' count_core)) (Batch [increment 1, increment 2])
     = \<lparr>thrown = None,
        after = \<lparr>state = [(''counter'', IMap [(''count'', Num 3)])],
                 reactorCores = [(''counter'', count_core)],
                 outputStream = [[(''counter'', IMap [(''count'', Num 3)])]]\<rparr>,
        messages_after = []\<rparr>
   \<and> get (after (cycle (after (attachCore Reactor ''counter'' count_core))
          (Batch [increment 1, increment 2]))) (Key ''counter'') = Obj [(''count'', Num 3)]"
  by (simp add: run_defs count_core_def increment_def js_plus_def number_def round_nat_def)

text \<open>
  C9 as it is stated fails. The initial \<open>0\<close> is falsy, so \<open>attachCore\<close> stores the empty
  mapping; the first message turns it into the string \<open>Map {}1\<close>; on the second message
  the store calls \<open>asImmutable\<close> on that string and the cycle ends with a TypeError.
  \<open>get('counter')\<close> is still \<open>{}\<close>, not 3, and no snapshot was written.
\<close>

theorem counter_counterexample:
  "thrown (cycle (after (attachCore Reactor ''counter'' counter_core))
            (Batch [increment 1, increment 2])) = Some TypeError
   \<and> get (after (cycle (after (attachCore Reactor ''counter'' counter_core))
            (Batch [increment 1, increment 2]))) (Key ''counter'') = Obj []
   \<and> get (after (cycle (after (attachCore Reactor ''counter'' counter_core))
            (Batch [increment 1, increment 2]))) (Key ''counter'') \<noteq> Num 3
   \<and> outputStream (after (cycle (after (attachCore Reactor ''counter'' counter_core))
            (Batch [increment 1, increment 2]))) = []"
  by (simp add: run_defs counter_core_def increment_def js_plus_def)

section \<open>The caller's array\<close>



end
